theory Spec2Isabelle
  imports Complex_Main "HOL-Library.Sublist" "HOL-Library.AList"
begin

section \<open>The local fallback memory store of \<open>simple_memory.py\<close>\<close>

text \<open>
  The development embeds class \<open>LocalMemoryFallback\<close> of
  \<open>src/openmemory-mcp/simple_memory.py\<close>: the JSON file of memories, \<open>_load_memories\<close>,
  \<open>_save_memories\<close>, \<open>store\<close>, \<open>search_local\<close> and \<open>get_all_local\<close>.

  Conventions of the model.
  \<^item> A Python \<open>str\<close> is a \<open>string\<close> whose characters stand for the code points
    U+0000 to U+00FF; \<open>str.lower\<close>, \<open>str.split\<close>, \<open>str.count\<close> and the operator
    \<open>in\<close> are written out for that range.
  \<^item> The quotient \<open>count / words\<close> of two Python integers is a float, the double
    nearest to the exact quotient. The model keeps the exact quotient as a \<open>rat\<close>;
    rounding is monotone, and does not identify two different quotients of
    integers below \<open>2^26\<close>.
  \<^item> An exception is a value \<open>Inl e\<close> of a sum type; what \<open>print\<close> writes is
    returned as a list of lines.
  \<^item> The metadata of a memory is a Python value; \<open>json.dump\<close> and \<open>json.load\<close> are
    written out on these values: a tuple is written as an array, a dictionary key
    as a string, and a set raises \<open>TypeError\<close>.
  \<^item> The file on disk is a value of type \<open>memory_file\<close>, passed in and returned;
    it holds what \<open>json.dump\<close> wrote, and \<open>json.load\<close> reads it back.
\<close>

subsection \<open>Python strings\<close>

text \<open>\<open>str.isspace\<close> on one character, for the code points below 256.\<close>

definition isspace :: "char \<Rightarrow> bool" where
  "isspace c = (let n = (of_char c :: nat) in
     (9 \<le> n \<and> n \<le> 13) \<or> (28 \<le> n \<and> n \<le> 32) \<or> n = 133 \<or> n = 160)"

text \<open>\<open>str.lower\<close>: the upper-case letters below 256 are A to Z and U+00C0 to
  U+00DE without the multiplication sign U+00D7; each has its lower-case letter 32
  code points above.\<close>

definition lower_char :: "char \<Rightarrow> char" where
  "lower_char c = (let n = (of_char c :: nat) in
     if 65 \<le> n \<and> n \<le> 90 then char_of (n + 32)
     else if 192 \<le> n \<and> n \<le> 222 \<and> n \<noteq> 215 then char_of (n + 32)
     else c)"

definition lower :: "string \<Rightarrow> string" where
  "lower s = map lower_char s"

text \<open>\<open>sub in s\<close>: some suffix of \<open>s\<close> starts with \<open>sub\<close>.\<close>

fun str_in :: "string \<Rightarrow> string \<Rightarrow> bool" where
  "str_in sub [] = (sub = [])"
| "str_in sub (c # cs) = (prefix sub (c # cs) \<or> str_in sub cs)"

text \<open>\<open>s.count(sub)\<close>: the occurrences found scanning from the left, each search
  resuming after the end of the previous occurrence (so they do not overlap);
  \<open>len(s) + 1\<close> for the empty \<open>sub\<close>.\<close>

function count_str :: "string \<Rightarrow> string \<Rightarrow> nat" where
  "count_str s sub =
     (if sub = [] then length s + 1
      else if s = [] then 0
      else if prefix sub s then 1 + count_str (drop (length sub) s) sub
      else count_str (tl s) sub)"
  by pat_completeness auto
termination
  by (relation "measure (\<lambda>(s, sub). length s)") auto

declare count_str.simps [simp del]

text \<open>\<open>s.split()\<close>: the maximal runs of characters that are not whitespace.\<close>

function split_ws :: "string \<Rightarrow> string list" where
  "split_ws [] = []"
| "split_ws (c # cs) =
     (if isspace c then split_ws cs
      else (c # takeWhile (\<lambda>x. \<not> isspace x) cs)
             # split_ws (dropWhile (\<lambda>x. \<not> isspace x) cs))"
  by pat_completeness auto
termination
  by (relation "measure length") (auto simp: length_dropWhile_le less_Suc_eq_le)

text \<open>\<open>str(n)\<close> for a natural number: its decimal digits.\<close>

fun str_nat :: "nat \<Rightarrow> string" where
  "str_nat n = (if n < 10 then [char_of (48 + n)]
     else str_nat (n div 10) @ [char_of (48 + n mod 10)])"

declare str_nat.simps [simp del]

text \<open>Slicing \<open>xs[:k]\<close>: a negative \<open>k\<close> counts from the end.\<close>

definition slice_to :: "'a list \<Rightarrow> int \<Rightarrow> 'a list" where
  "slice_to xs k =
     (if 0 \<le> k then take (nat k) xs else take (nat (int (length xs) + k)) xs)"

subsection \<open>Python values and JSON\<close>

text \<open>
  The metadata of a memory is a Python value: \<open>None\<close>, a boolean, an integer, a
  string, a list, a tuple, a set, or a dictionary, given by its items in insertion
  order. (Floats and objects of other classes are outside the model; the set stands
  for the values \<open>json.dump\<close> cannot serialise.)
\<close>

datatype pyval = PyNone | PyBool bool | PyInt int | PyStr string
  | PyList "pyval list" | PyTuple "pyval list" | PySet "pyval list"
  | PyDict "(pyval \<times> pyval) list"

text \<open>A JSON document: an object is the sequence of its members as written, in which
  a name may occur more than once.\<close>

datatype json = JNull | JBool bool | JInt int | JStr string
  | JArray "json list" | JObject "(string \<times> json) list"

text \<open>\<open>str(i)\<close> for an integer.\<close>

definition str_int :: "int \<Rightarrow> string" where
  "str_int i = (if i < 0 then CHR ''-'' # str_nat (nat (- i)) else str_nat (nat i))"

fun type_name :: "pyval \<Rightarrow> string" where
  "type_name PyNone = ''NoneType''"
| "type_name (PyBool b) = ''bool''"
| "type_name (PyInt i) = ''int''"
| "type_name (PyStr s) = ''str''"
| "type_name (PyList xs) = ''list''"
| "type_name (PyTuple xs) = ''tuple''"
| "type_name (PySet xs) = ''set''"
| "type_name (PyDict kvs) = ''dict''"

text \<open>The name \<open>json.dump\<close> writes for a dictionary key, or the text of the
  \<open>TypeError\<close> it raises for a key of another type.\<close>

fun key_str :: "pyval \<Rightarrow> string + string" where
  "key_str (PyStr s) = Inr s"
| "key_str (PyBool b) = Inr (if b then ''true'' else ''false'')"
| "key_str PyNone = Inr ''null''"
| "key_str (PyInt i) = Inr (str_int i)"
| "key_str k = Inl (''keys must be str, int, float, bool or None, not '' @ type_name k)"

text \<open>The results of a sequence of steps, or the first exception among them.\<close>

fun first_error :: "(string + 'a) list \<Rightarrow> string + 'a list" where
  "first_error [] = Inr []"
| "first_error (Inl e # rs) = Inl e"
| "first_error (Inr x # rs) =
     (case first_error rs of Inl e \<Rightarrow> Inl e | Inr xs \<Rightarrow> Inr (x # xs))"

text \<open>
  What \<open>json.dump\<close> writes for a value, or the text of the \<open>TypeError\<close> it raises:
  a tuple is written as an array like a list, a key is written as a string, and a
  set is not serialisable.
\<close>

fun to_json :: "pyval \<Rightarrow> string + json" where
  "to_json PyNone = Inr JNull"
| "to_json (PyBool b) = Inr (JBool b)"
| "to_json (PyInt i) = Inr (JInt i)"
| "to_json (PyStr s) = Inr (JStr s)"
| "to_json (PyList xs) = map_sum id JArray (first_error (map to_json xs))"
| "to_json (PyTuple xs) = map_sum id JArray (first_error (map to_json xs))"
| "to_json (PySet xs) = Inl ''Object of type set is not JSON serializable''"
| "to_json (PyDict kvs) =
     map_sum id JObject (first_error (map (\<lambda>(k, v).
        case key_str k of
          Inl e \<Rightarrow> Inl e
        | Inr s \<Rightarrow> (case to_json v of Inl e \<Rightarrow> Inl e | Inr j \<Rightarrow> Inr (s, j))) kvs))"

text \<open>The dictionary built by inserting items one after the other: a later value
  replaces the value of an equal key, which keeps its place.\<close>

definition dict_of :: "('k \<times> 'v) list \<Rightarrow> ('k \<times> 'v) list" where
  "dict_of kvs = foldl (\<lambda>d (k, v). AList.update k v d) [] kvs"

text \<open>What \<open>json.load\<close> returns for a document.\<close>

fun of_json :: "json \<Rightarrow> pyval" where
  "of_json JNull = PyNone"
| "of_json (JBool b) = PyBool b"
| "of_json (JInt i) = PyInt i"
| "of_json (JStr s) = PyStr s"
| "of_json (JArray xs) = PyList (map of_json xs)"
| "of_json (JObject kvs) = PyDict (dict_of (map (\<lambda>(s, j). (PyStr s, of_json j)) kvs))"

subsection \<open>Records and the file\<close>

text \<open>A memory is the dictionary \<open>store\<close> builds, with the keys \<open>id\<close>, \<open>content\<close>,
  \<open>metadata\<close> and \<open>timestamp\<close>: in the program its metadata is a Python value, in the
  file a JSON document.\<close>

record 'm memory =
  memory_id :: string
  content :: string
  metadata :: 'm
  timestamp :: string

text \<open>An element of the list \<open>search_local\<close> returns.\<close>

record match =
  match_content :: string
  score :: rat
  match_id :: string

datatype error = ZeroDivisionError | AttributeError

text \<open>
  The file \<open>memories.json\<close>: it does not exist; or it exists and opening, reading or
  parsing it raises; or it holds a JSON array of memories. (A file whose JSON is not
  an array of such objects is outside the model.)
\<close>

datatype memory_file = Absent | Unreadable | Holds "json memory list"

definition parse_memory :: "json memory \<Rightarrow> pyval memory" where
  "parse_memory m =
     \<lparr>memory_id = memory_id m, content = content m, metadata = of_json (metadata m),
      timestamp = timestamp m\<rparr>"

fun load_memories :: "memory_file \<Rightarrow> pyval memory list" where
  "load_memories Absent = []"
| "load_memories Unreadable = []"
| "load_memories (Holds ms) = map parse_memory ms"

text \<open>
  What the operating system does when \<open>_save_memories\<close> writes: it lets the write
  through; or \<open>open\<close> raises and the file is untouched; or \<open>open\<close> has truncated the
  file and writing raises, leaving an incomplete document. The string is the text
  of the exception.
\<close>

datatype write_outcome = Written | OpenFailed string | DumpFailed string

definition dump_memory :: "pyval memory \<Rightarrow> string + json memory" where
  "dump_memory m =
     (case to_json (metadata m) of
        Inl e \<Rightarrow> Inl e
      | Inr j \<Rightarrow>
          Inr \<lparr>memory_id = memory_id m, content = content m, metadata = j,
               timestamp = timestamp m\<rparr>)"

text \<open>
  \<open>_save_memories\<close>: every exception is caught and printed. When the operating
  system lets the write through, \<open>json.dump\<close> still raises \<open>TypeError\<close> on a value it
  cannot serialise, after \<open>open\<close> has truncated the file: the document is incomplete.
\<close>

fun save_memories ::
  "write_outcome \<Rightarrow> memory_file \<Rightarrow> pyval memory list \<Rightarrow> memory_file \<times> string list" where
  "save_memories Written f ms =
     (case first_error (map dump_memory ms) of
        Inl e \<Rightarrow> (Unreadable, [''Failed to save memories: '' @ e])
      | Inr js \<Rightarrow> (Holds js, []))"
| "save_memories (OpenFailed e) f ms = (f, [''Failed to save memories: '' @ e])"
| "save_memories (DumpFailed e) f ms = (Unreadable, [''Failed to save memories: '' @ e])"

subsection \<open>\<open>store\<close>\<close>

text \<open>
  The class \<open>Path\<close> that \<open>store\<close> inspects is a parameter: \<open>has_ctime\<close> is
  \<open>hasattr(Path, 'ctime')\<close>, and \<open>ctime_of_now\<close> is what evaluating
  \<open>str(Path.ctime(Path.now()))\<close> gives. \<open>pathlib_Path\<close> is the class of the standard
  library, which has neither an attribute \<open>ctime\<close> nor an attribute \<open>now\<close>.
\<close>

record path_class =
  has_ctime :: bool
  ctime_of_now :: "error + string"

definition pathlib_Path :: path_class where
  "pathlib_Path = \<lparr>has_ctime = False, ctime_of_now = Inl AttributeError\<rparr>"

definition make_timestamp :: "path_class \<Rightarrow> error + string" where
  "make_timestamp P = (if has_ctime P then ctime_of_now P else Inr ''unknown'')"

text \<open>What a call of \<open>store\<close> leaves: its value or exception, the file, the lines printed.\<close>

record stored =
  returned :: "error + string"
  file_after :: memory_file
  printed :: "string list"

definition store ::
  "path_class \<Rightarrow> write_outcome \<Rightarrow> memory_file \<Rightarrow> string \<Rightarrow> pyval \<Rightarrow> stored" where
  "store P w f c md =
     (let memories = load_memories f;
          mid = ''local_'' @ str_nat (length memories + 1)
      in case make_timestamp P of
           Inl e \<Rightarrow> \<lparr>returned = Inl e, file_after = f, printed = []\<rparr>
         | Inr ts \<Rightarrow>
             (let new_memory =
                    \<lparr>memory_id = mid, content = c, metadata = md, timestamp = ts\<rparr>;
                  saved = save_memories w f (memories @ [new_memory])
              in \<lparr>returned = Inr mid, file_after = fst saved, printed = snd saved\<rparr>))"

text \<open>Calls of \<open>store\<close> one after the other, each on the file the previous one left.\<close>

fun store_all ::
  "path_class \<Rightarrow> memory_file \<Rightarrow> (write_outcome \<times> string \<times> pyval) list
     \<Rightarrow> (error + string) list \<times> memory_file" where
  "store_all P f [] = ([], f)"
| "store_all P f ((w, c, md) # calls) =
     (let r = store P w f c md;
          rest = store_all P (file_after r) calls
      in (returned r # fst rest, snd rest))"

subsection \<open>\<open>get_all_local\<close> and \<open>search_local\<close>\<close>

definition get_all_local :: "memory_file \<Rightarrow> pyval memory list" where
  "get_all_local f = load_memories f"

text \<open>The score expression, on the lower-cased content and query.\<close>

definition score_of :: "string \<Rightarrow> string \<Rightarrow> error + rat" where
  "score_of c ql =
     (if c \<noteq> [] then
        (let n = length (split_ws c) in
         if n = 0 then Inl ZeroDivisionError
         else Inr (of_nat (count_str c ql) / of_nat n))
      else Inr 0)"

text \<open>The loop over the memories, with the list \<open>matches\<close> built so far.\<close>

fun collect_matches ::
  "string \<Rightarrow> 'm memory list \<Rightarrow> match list \<Rightarrow> error + match list" where
  "collect_matches ql [] matches = Inr matches"
| "collect_matches ql (m # ms) matches =
     (let c = lower (content m) in
      if str_in ql c then
        (case score_of c ql of
           Inl e \<Rightarrow> Inl e
         | Inr s \<Rightarrow>
             collect_matches ql ms
               (matches @ [\<lparr>match_content = content m, score = s, match_id = memory_id m\<rparr>]))
      else collect_matches ql ms matches)"

text \<open>
  \<open>matches.sort(key=..., reverse=True)\<close>: the list is reversed, sorted by a stable
  ascending sort, and reversed again.
\<close>

definition sort_reverse :: "match list \<Rightarrow> match list" where
  "sort_reverse xs = rev (sort_key score (rev xs))"

definition search_local :: "memory_file \<Rightarrow> string \<Rightarrow> int \<Rightarrow> error + match list" where
  "search_local f query limit =
     (let memories = load_memories f;
          query_lower = lower query
      in case collect_matches query_lower memories [] of
           Inl e \<Rightarrow> Inl e
         | Inr matches \<Rightarrow> Inr (slice_to (sort_reverse matches) limit))"

subsection \<open>The specification's words\<close>

text \<open>A record matches a query when its lower-cased content contains the lower-cased
  query as a substring.\<close>

definition spec_matches :: "string \<Rightarrow> 'm memory \<Rightarrow> bool" where
  "spec_matches q m = sublist (lower q) (lower (content m))"

text \<open>The score of the specification: occurrences of the query over the number of
  words of the content, and 0 for the empty content.\<close>

definition spec_score :: "string \<Rightarrow> string \<Rightarrow> rat" where
  "spec_score q c =
     (if c = [] then 0
      else of_nat (count_str (lower c) (lower q)) / of_nat (length (split_ws c)))"

definition spec_scored :: "string \<Rightarrow> 'm memory \<Rightarrow> match" where
  "spec_scored q m =
     \<lparr>match_content = content m, score = spec_score q (content m), match_id = memory_id m\<rparr>"

text \<open>A Python value is in JSON form when \<open>json.dump\<close> accepts it and \<open>json.load\<close>
  reads the document back as the same value.\<close>

definition json_form :: "pyval \<Rightarrow> bool" where
  "json_form p = (case to_json p of Inl e \<Rightarrow> False | Inr j \<Rightarrow> of_json j = p)"

text \<open>The number a string of decimal digits denotes.\<close>

definition nat_of_str :: "string \<Rightarrow> nat" where
  "nat_of_str s = foldl (\<lambda>a c. 10 * a + (of_char c - 48)) 0 s"

subsection \<open>Sample data\<close>

text \<open>Short names for the records of the examples: a memory in the file, as \<open>store\<close>
  writes it for the metadata \<open>{}\<close>, a file of four memories, and an element of a
  search result.\<close>

abbreviation sample :: "string \<Rightarrow> string \<Rightarrow> json memory" where
  "sample i c \<equiv>
     \<lparr>memory_id = i, content = c, metadata = JObject [], timestamp = ''unknown''\<rparr>"

abbreviation sample_file :: memory_file where
  "sample_file \<equiv> Holds [sample ''local_1'' ''alpha one'', sample ''local_2'' ''beta'',
     sample ''local_3'' ''Alpha two'', sample ''local_4'' ''alpha'']"

abbreviation hit :: "string \<Rightarrow> rat \<Rightarrow> string \<Rightarrow> match" where
  "hit c s i \<equiv> \<lparr>match_content = c, score = s, match_id = i\<rparr>"

section \<open>Properties of the string operations\<close>

text \<open>The operator \<open>in\<close> decides the substring relation.\<close>

lemma str_in_sublist: "str_in sub s \<longleftrightarrow> sublist sub s"
  by (induction s) (auto simp: sublist_Cons_right)

lemma isspace_lower_char: "isspace (lower_char c) = isspace c"
  by (auto simp: isspace_def lower_char_def Let_def)

lemma split_ws_lower: "split_ws (lower s) = map lower (split_ws s)"
proof (induction s rule: split_ws.induct)
  case 1
  then show ?case by (simp add: lower_def)
next
  case (2 c cs)
  show ?case
  proof (cases "isspace c")
    case True
    with 2 show ?thesis by (simp add: lower_def isspace_lower_char)
  next
    case False
    have tw: "takeWhile (\<lambda>x. \<not> isspace x) (map lower_char cs)
                = map lower_char (takeWhile (\<lambda>x. \<not> isspace x) cs)"
      by (simp add: takeWhile_map comp_def isspace_lower_char)
    have dw: "dropWhile (\<lambda>x. \<not> isspace x) (map lower_char cs)
                = map lower_char (dropWhile (\<lambda>x. \<not> isspace x) cs)"
      by (simp add: dropWhile_map comp_def isspace_lower_char)
    from False 2 show ?thesis
      by (simp add: lower_def isspace_lower_char tw dw)
  qed
qed

lemma lower_Nil_iff: "lower s = [] \<longleftrightarrow> s = []"
  by (simp add: lower_def)

lemma word_count_lower: "length (split_ws (lower s)) = length (split_ws s)"
  by (simp add: split_ws_lower)

lemma split_ws_Nil_iff: "split_ws c = [] \<longleftrightarrow> list_all isspace c"
  by (induction c rule: split_ws.induct) auto

text \<open>The decimal digits of a number denote it.\<close>

lemma nat_of_str_snoc: "nat_of_str (s @ [c]) = 10 * nat_of_str s + (of_char c - 48)"
  by (simp add: nat_of_str_def)

lemma nat_of_str_str_nat: "nat_of_str (str_nat n) = n"
proof (induction n rule: str_nat.induct)
  case (1 n)
  show ?case
  proof (cases "n < 10")
    case True
    then show ?thesis
      by (subst str_nat.simps) (simp add: nat_of_str_def)
  next
    case False
    then have "nat_of_str (str_nat n) = 10 * nat_of_str (str_nat (n div 10))
                 + (of_char (char_of (48 + n mod 10) :: char) - 48)"
      by (subst str_nat.simps) (simp add: nat_of_str_snoc)
    also have "\<dots> = 10 * (n div 10) + n mod 10"
      using False 1 by simp
    finally show ?thesis by simp
  qed
qed


section \<open>Properties of sorting and slicing\<close>

lemma set_sort_reverse: "set (sort_reverse xs) = set xs"
  by (simp add: sort_reverse_def)

lemma length_sort_reverse: "length (sort_reverse xs) = length xs"
  by (simp add: sort_reverse_def)

lemma sorted_sort_reverse: "sorted_wrt (\<lambda>a b. score b \<le> score a) (sort_reverse xs)"
proof -
  have "sorted_wrt (\<lambda>a b. score a \<le> score b) (sort_key score (rev xs))"
    using sorted_sort_key [of score "rev xs"] by (simp add: sorted_map)
  then show ?thesis
    by (simp add: sort_reverse_def sorted_wrt_rev)
qed

lemma sort_reverse_stable:
  "filter (\<lambda>r. score r = k) (sort_reverse xs) = filter (\<lambda>r. score r = k) xs"
proof -
  have "filter (\<lambda>r. score r = k) (sort_reverse xs)
          = rev (filter (\<lambda>r. score r = k) (sort_key score (rev xs)))"
    by (simp add: sort_reverse_def rev_filter)
  also have "\<dots> = rev (filter (\<lambda>r. score r = k) (rev xs))"
    by (simp only: sort_key_stable)
  also have "\<dots> = filter (\<lambda>r. score r = k) xs"
    by (simp add: rev_filter)
  finally show ?thesis .
qed

lemma slice_to_prefix: "prefix (slice_to xs k) xs"
  by (simp add: slice_to_def take_is_prefix)

lemma set_slice_to: "set (slice_to xs k) \<subseteq> set xs"
  by (simp add: slice_to_def set_take_subset)

lemma slice_to_pos: "0 < k \<Longrightarrow> slice_to xs k = take (nat k) xs"
  by (simp add: slice_to_def)

lemma length_slice_to: "0 \<le> k \<Longrightarrow> int (length (slice_to xs k)) \<le> k"
  by (simp add: slice_to_def)


section \<open>The loop of \<open>search_local\<close>\<close>

text \<open>
  The score expression raises exactly on a content that is not empty and has no word;
  otherwise it is the score of the specification. The loop therefore raises exactly
  when some matching memory has such a content, and otherwise lists the matching
  memories in the order of the file.
\<close>

lemma score_of_lower:
  "score_of (lower c) (lower q) =
     (if c \<noteq> [] \<and> split_ws c = [] then Inl ZeroDivisionError else Inr (spec_score q c))"
  by (simp add: score_of_def spec_score_def word_count_lower Let_def lower_Nil_iff)

lemma collect_matches_eq:
  "collect_matches (lower q) ms acc =
     (if \<exists>m\<in>set ms. spec_matches q m \<and> content m \<noteq> [] \<and> split_ws (content m) = []
      then Inl ZeroDivisionError
      else Inr (acc @ map (spec_scored q) (filter (spec_matches q) ms)))"
proof (induction ms arbitrary: acc)
  case Nil
  then show ?case by simp
next
  case (Cons m ms)
  show ?case
  proof (cases "spec_matches q m")
    case True
    then have "str_in (lower q) (lower (content m))"
      by (simp add: str_in_sublist spec_matches_def)
    with True show ?thesis
      by (auto simp: Cons.IH Let_def score_of_lower spec_scored_def)
  next
    case False
    then have "\<not> str_in (lower q) (lower (content m))"
      by (simp add: str_in_sublist spec_matches_def)
    with False show ?thesis
      by (auto simp: Cons.IH Let_def)
  qed
qed

lemma search_local_eq:
  "search_local f q limit =
     (if \<exists>m\<in>set (load_memories f).
           spec_matches q m \<and> content m \<noteq> [] \<and> split_ws (content m) = []
      then Inl ZeroDivisionError
      else Inr (slice_to (sort_reverse
                  (map (spec_scored q) (filter (spec_matches q) (load_memories f)))) limit))"
  by (auto simp: search_local_def collect_matches_eq Let_def)

section \<open>Properties of the JSON round trip\<close>

text \<open>
  Inserting items with distinct keys builds the list of the items; whatever is
  inserted, the keys of a dictionary are distinct and its items are among those
  inserted.
\<close>

lemma first_error_map_Inr: "first_error (map (\<lambda>x. Inr (g x)) xs) = Inr (map g xs)"
  by (induction xs) auto

lemma update_fresh: "k \<notin> fst ` set al \<Longrightarrow> AList.update k v al = al @ [(k, v)]"
  by (induction al) auto

lemma set_update_subset: "set (AList.update k v al) \<subseteq> insert (k, v) (set al)"
  by (induction al) auto

lemma foldl_update_distinct:
  "distinct (map fst acc) \<Longrightarrow>
     distinct (map fst (foldl (\<lambda>d (k, v). AList.update k v d) acc kvs))"
  by (induction kvs arbitrary: acc) (auto simp: distinct_update)

lemma foldl_update_subset:
  "set (foldl (\<lambda>d (k, v). AList.update k v d) acc kvs) \<subseteq> set acc \<union> set kvs"
proof (induction kvs arbitrary: acc)
  case Nil
  then show ?case by simp
next
  case (Cons kv kvs)
  obtain k v where kv: "kv = (k, v)" by (cases kv)
  show ?case
    using Cons.IH [of "AList.update k v acc"] set_update_subset [of k v acc]
    by (auto simp: kv)
qed

lemma foldl_update_fresh:
  "distinct (map fst (acc @ kvs)) \<Longrightarrow>
     foldl (\<lambda>d (k, v). AList.update k v d) acc kvs = acc @ kvs"
proof (induction kvs arbitrary: acc)
  case Nil
  then show ?case by simp
next
  case (Cons kv kvs)
  obtain k v where kv: "kv = (k, v)" by (cases kv)
  from Cons.prems have fresh: "k \<notin> fst ` set acc"
    by (auto simp: kv)
  from Cons.prems have "distinct (map fst ((acc @ [(k, v)]) @ kvs))"
    by (simp add: kv)
  from Cons.IH [OF this] show ?case
    by (simp add: kv update_fresh [OF fresh])
qed

lemma distinct_dict_of: "distinct (map fst (dict_of kvs))"
  unfolding dict_of_def by (rule foldl_update_distinct) simp

lemma set_dict_of: "set (dict_of kvs) \<subseteq> set kvs"
  unfolding dict_of_def using foldl_update_subset [of "[]" kvs] by simp

lemma dict_of_distinct: "distinct (map fst kvs) \<Longrightarrow> dict_of kvs = kvs"
  unfolding dict_of_def using foldl_update_fresh [of "[]" kvs] by simp

text \<open>What \<open>json.load\<close> returns is in JSON form: written and read again, it is the
  same value.\<close>

lemma json_formD: "json_form p \<Longrightarrow> to_json p = Inr (projr (to_json p)) \<and> of_json (projr (to_json p)) = p"
  by (cases "to_json p") (auto simp: json_form_def)

lemma json_form_list:
  assumes "\<forall>x\<in>set xs. json_form x"
  shows "json_form (PyList xs)"
proof -
  let ?g = "\<lambda>x. projr (to_json x)"
  have "map to_json xs = map (\<lambda>x. Inr (?g x)) xs"
    using assms by (auto dest: json_formD)
  then have "first_error (map to_json xs) = Inr (map ?g xs)"
    by (simp only: first_error_map_Inr)
  moreover have "map of_json (map ?g xs) = xs"
    using assms by (auto intro!: map_idI simp: json_formD [THEN conjunct2])
  ultimately show ?thesis
    by (simp add: json_form_def)
qed

lemma json_form_dict:
  assumes "distinct (map fst d)"
    and "\<forall>kv\<in>set d. (\<exists>s. fst kv = PyStr s) \<and> json_form (snd kv)"
  shows "json_form (PyDict d)"
proof -
  let ?g = "\<lambda>kv. (projr (key_str (fst kv)), projr (to_json (snd kv)))"
  let ?f = "\<lambda>(k, v). case key_str k of Inl e \<Rightarrow> Inl e
        | Inr s \<Rightarrow> (case to_json v of Inl e \<Rightarrow> Inl e | Inr j \<Rightarrow> Inr (s, j))"
  have "map ?f d = map (\<lambda>kv. Inr (?g kv)) d"
  proof (rule map_cong [OF refl])
    fix kv assume "kv \<in> set d"
    with assms(2) obtain s where k: "fst kv = PyStr s" and v: "json_form (snd kv)"
      by blast
    from json_formD [OF v] k show "?f kv = Inr (?g kv)"
      by (cases kv) (auto split: sum.splits)
  qed
  then have e: "first_error (map ?f d) = Inr (map ?g d)"
    by (simp only: first_error_map_Inr)
  have "map (\<lambda>(s, j). (PyStr s, of_json j)) (map ?g d) = d"
  proof -
    have "\<And>kv. kv \<in> set d \<Longrightarrow> (\<lambda>(s, j). (PyStr s, of_json j)) (?g kv) = kv"
    proof -
      fix kv assume "kv \<in> set d"
      with assms(2) obtain s where k: "fst kv = PyStr s" and v: "json_form (snd kv)"
        by blast
      from json_formD [OF v] k show "(\<lambda>(s, j). (PyStr s, of_json j)) (?g kv) = kv"
        by (cases kv) auto
    qed
    then show ?thesis
      by (auto intro!: map_idI)
  qed
  with e assms(1) show ?thesis
    by (simp add: json_form_def dict_of_distinct)
qed

lemma json_form_of_json: "json_form (of_json j)"
proof (induction j)
  case (JArray xs)
  then show ?case
    by (auto intro!: json_form_list)
next
  case (JObject kvs)
  let ?h = "\<lambda>(s, j). (PyStr s, of_json j)"
  have "\<forall>kv\<in>set (dict_of (map ?h kvs)). (\<exists>s. fst kv = PyStr s) \<and> json_form (snd kv)"
  proof
    fix kv assume "kv \<in> set (dict_of (map ?h kvs))"
    then have "kv \<in> set (map ?h kvs)"
      using set_dict_of by blast
    then obtain s j where sj: "(s, j) \<in> set kvs" and kv: "kv = (PyStr s, of_json j)"
      by auto
    from JObject.IH [OF sj] have "json_form (of_json j)"
      by simp
    with kv show "(\<exists>s. fst kv = PyStr s) \<and> json_form (snd kv)"
      by simp
  qed
  then show ?case
    by (simp add: json_form_dict distinct_dict_of)
qed (simp_all add: json_form_def)

section \<open>Loading\<close>

text \<open>
  Claim C6. When the file of memories is absent, or exists and cannot be read or
  parsed, \<open>_load_memories\<close> returns the empty list and raises nothing: the parse
  failure is swallowed. Hence \<open>get_all_local\<close> returns the empty list, and
  \<open>search_local\<close> returns the empty list for every query and limit, as on an empty
  store.
\<close>

theorem load_fails_open:
  "load_memories Absent = []
   \<and> load_memories Unreadable = []
   \<and> get_all_local Absent = []
   \<and> get_all_local Unreadable = []
   \<and> search_local Absent q limit = Inr []
   \<and> search_local Unreadable q limit = Inr []"
  by (simp add: get_all_local_def search_local_def slice_to_def sort_reverse_def)

lemma search_local_Inr:
  assumes "search_local f q limit = Inr res"
  shows "res = slice_to (sort_reverse
           (map (spec_scored q) (filter (spec_matches q) (load_memories f)))) limit"
  using assms by (simp add: search_local_eq split: if_splits)

lemma search_local_collect:
  assumes "search_local f q limit = Inr res"
  shows "\<exists>matches. collect_matches (lower q) (load_memories f) [] = Inr matches
           \<and> res = slice_to (sort_reverse matches) limit"
  using assms by (auto simp: search_local_def Let_def split: sum.splits)

text \<open>A search depends on the file only through the records read from it.\<close>

lemma search_local_cong:
  "load_memories f = load_memories g \<Longrightarrow> search_local f q limit = search_local g q limit"
  by (simp add: search_local_def)

text \<open>An element of a list sorted by descending score that is not among the first
  \<open>n\<close> is preceded by \<open>n\<close> elements, none of a lower score.\<close>

lemma take_sorted_cut:
  assumes "sorted_wrt (\<lambda>a b. score b \<le> score a) xs" and "x \<in> set xs"
    and "x \<notin> set (take n xs)"
  shows "length (take n xs) = n \<and> (\<forall>r\<in>set (take n xs). score x \<le> score r)"
proof -
  have split: "xs = take n xs @ drop n xs"
    by simp
  from assms(2,3) have d: "x \<in> set (drop n xs)"
    by (metis Un_iff split set_append)
  then have "drop n xs \<noteq> []"
    by auto
  then have len: "length (take n xs) = n"
    by simp
  from assms(1) have "sorted_wrt (\<lambda>a b. score b \<le> score a) (take n xs @ drop n xs)"
    by simp
  then have "\<forall>r\<in>set (take n xs). \<forall>y\<in>set (drop n xs). score y \<le> score r"
    by (simp only: sorted_wrt_append) blast
  with d len show ?thesis
    by blast
qed

section \<open>The sample file\<close>

lemma sample_search:
  "search_local sample_file ''alpha'' 5 =
     Inr [hit ''alpha'' 1 ''local_4'', hit ''alpha one'' (1 / 2) ''local_1'',
          hit ''Alpha two'' (1 / 2) ''local_3'']"
  by code_simp

lemma sample_search_2:
  "search_local sample_file ''alpha'' 2 =
     Inr [hit ''alpha'' 1 ''local_4'', hit ''alpha one'' (1 / 2) ''local_1'']"
  by code_simp

lemma sample_words:
  "\<forall>m\<in>set (load_memories sample_file).
      spec_matches ''alpha'' m \<longrightarrow> content m = [] \<or> split_ws (content m) \<noteq> []"
  by (simp add: isspace_def parse_memory_def)

lemma sample_spec:
  "slice_to (sort_reverse (map (spec_scored ''alpha'')
      (filter (spec_matches ''alpha'') (load_memories sample_file)))) 5 =
     [hit ''alpha'' 1 ''local_4'', hit ''alpha one'' (1 / 2) ''local_1'',
      hit ''Alpha two'' (1 / 2) ''local_3'']"
  by code_simp

section \<open>Properties of \<open>store\<close>\<close>

text \<open>With the \<open>Path\<close> of the standard library the guard \<open>hasattr(Path, 'ctime')\<close> is
  false, and \<open>store\<close> runs to its \<open>return\<close>.\<close>

lemma pathlib_no_ctime: "\<not> has_ctime pathlib_Path"
  by (simp add: pathlib_Path_def)

lemma store_unfold:
  assumes "\<not> has_ctime P"
  shows "store P w f c md =
     \<lparr>returned = Inr (''local_'' @ str_nat (length (load_memories f) + 1)),
      file_after = fst (save_memories w f (load_memories f @
        [\<lparr>memory_id = ''local_'' @ str_nat (length (load_memories f) + 1), content = c,
          metadata = md, timestamp = ''unknown''\<rparr>])),
      printed = snd (save_memories w f (load_memories f @
        [\<lparr>memory_id = ''local_'' @ str_nat (length (load_memories f) + 1), content = c,
          metadata = md, timestamp = ''unknown''\<rparr>]))\<rparr>"
  using assms by (simp add: store_def make_timestamp_def Let_def)

text \<open>The records read from the file are written back as they are: \<open>json.dump\<close>
  accepts each of them, and what it writes is read as the same record.\<close>

lemma first_error_append:
  "first_error (xs @ ys) =
     (case first_error xs of
        Inl e \<Rightarrow> Inl e
      | Inr as \<Rightarrow> (case first_error ys of Inl e \<Rightarrow> Inl e | Inr bs \<Rightarrow> Inr (as @ bs)))"
  by (induction xs rule: first_error.induct) (auto split: sum.splits)

lemma dump_parse_memory:
  "\<exists>m'. dump_memory (parse_memory m) = Inr m' \<and> parse_memory m' = parse_memory m"
  using json_formD [OF json_form_of_json, of "metadata m"]
  by (cases "to_json (of_json (metadata m))") (auto simp: dump_memory_def parse_memory_def)

lemma dump_parse_memories:
  "\<exists>js. first_error (map dump_memory (map parse_memory ms)) = Inr js
         \<and> map parse_memory js = map parse_memory ms"
proof (induction ms)
  case Nil
  then show ?case by simp
next
  case (Cons m ms)
  from dump_parse_memory [of m] obtain m' where
    m': "dump_memory (parse_memory m) = Inr m'" "parse_memory m' = parse_memory m"
    by blast
  from Cons.IH obtain js where
    js: "first_error (map dump_memory (map parse_memory ms)) = Inr js"
        "map parse_memory js = map parse_memory ms"
    by blast
  from m' js show ?case
    by simp
qed

lemma dump_loaded:
  "\<exists>js. first_error (map dump_memory (load_memories f)) = Inr js
         \<and> map parse_memory js = load_memories f"
  using dump_parse_memories by (cases f) auto

text \<open>A write that succeeds leaves the records read, followed by the new record with
  its metadata as JSON reads it back.\<close>

lemma load_after_store:
  assumes "\<not> has_ctime P" and "to_json md = Inr j"
  shows "load_memories (file_after (store P Written f c md)) =
           load_memories f @
             [\<lparr>memory_id = ''local_'' @ str_nat (length (load_memories f) + 1), content = c,
               metadata = of_json j, timestamp = ''unknown''\<rparr>]"
proof -
  from dump_loaded [of f] obtain js where
    js: "first_error (map dump_memory (load_memories f)) = Inr js"
        "map parse_memory js = load_memories f"
    by blast
  then show ?thesis
    by (simp add: store_unfold [OF assms(1)] first_error_append dump_memory_def assms(2)
        parse_memory_def)
qed

text \<open>A metadata that cannot be serialised leaves the file unreadable; the
  \<open>TypeError\<close> is printed like any other failure of the write.\<close>

lemma store_unserialisable:
  assumes "\<not> has_ctime P" and "to_json md = Inl e"
  shows "file_after (store P Written f c md) = Unreadable
         \<and> printed (store P Written f c md) = [''Failed to save memories: '' @ e]"
proof -
  from dump_loaded [of f] obtain js where
    js: "first_error (map dump_memory (load_memories f)) = Inr js"
    by blast
  then show ?thesis
    by (simp add: store_unfold [OF assms(1)] first_error_append dump_memory_def assms(2))
qed

text \<open>Successive calls whose writes succeed number their records from the length of
  the list they start on.\<close>

lemma store_all_ids:
  assumes "\<not> has_ctime P"
    and "list_all (\<lambda>call. fst call = Written \<and> \<not> isl (to_json (snd (snd call)))) calls"
  shows "fst (store_all P f calls) =
           map (\<lambda>k. Inr (''local_'' @ str_nat k))
             [Suc (length (load_memories f)) ..< Suc (length (load_memories f) + length calls)]"
  using assms(2)
proof (induction calls arbitrary: f)
  case Nil
  then show ?case by simp
next
  case (Cons call calls)
  obtain w c md where call: "call = (w, c, md)"
    by (cases call) auto
  from Cons.prems call obtain j where w: "w = Written" and j: "to_json md = Inr j"
    by (cases "to_json md") auto
  from Cons.prems have rest:
    "list_all (\<lambda>call. fst call = Written \<and> \<not> isl (to_json (snd (snd call)))) calls"
    by simp
  let ?n = "length (load_memories f)"
  let ?f' = "file_after (store P w f c md)"
  have len: "length (load_memories ?f') = Suc ?n"
    by (simp add: load_after_store [OF assms(1) j] w)
  have "fst (store_all P ?f' calls) =
          map (\<lambda>k. Inr (''local_'' @ str_nat k)) [Suc (Suc ?n) ..< Suc (Suc ?n + length calls)]"
    using Cons.IH [OF rest, of ?f'] by (simp only: len)
  moreover have "returned (store P w f c md) = Inr (''local_'' @ str_nat (Suc ?n))"
    by (simp add: store_unfold [OF assms(1)])
  moreover have "[Suc ?n ..< Suc (?n + length (call # calls))]
                   = Suc ?n # [Suc (Suc ?n) ..< Suc (Suc ?n + length calls)]"
    by (simp add: upt_conv_Cons del: upt_Suc)
  ultimately show ?case
    by (simp add: call Let_def del: upt_Suc)
qed

text \<open>
  Claim C4, as amended. \<open>store\<close> returns the id \<open>local_\<close> followed by the decimal
  digits of the current number of records plus one. When the write succeeds (the
  operating system lets it through and the metadata can be serialised), the file
  then holds the previous records followed by the new record. Hence calls of
  \<open>store\<close> one after the other on a store that starts empty, each of whose writes
  succeeds, return \<open>local_1\<close>, \<open>local_2\<close>, \<open>local_3\<close>, ...: the numbers after
  \<open>local_\<close> are 1, 2, ..., n, strictly increasing. (\<open>Path\<close> has no attribute \<open>ctime\<close>,
  as in the standard library.)
\<close>

theorem store_assigns_ids:
  assumes "\<not> has_ctime P"
  shows "returned (store P w f c md) = Inr (''local_'' @ str_nat (length (load_memories f) + 1))
    \<and> (to_json md = Inr j \<longrightarrow>
         load_memories (file_after (store P Written f c md)) =
           load_memories f @
             [\<lparr>memory_id = ''local_'' @ str_nat (length (load_memories f) + 1), content = c,
               metadata = of_json j, timestamp = ''unknown''\<rparr>])
    \<and> (load_memories f = []
        \<and> list_all (\<lambda>call. fst call = Written \<and> \<not> isl (to_json (snd (snd call)))) calls \<longrightarrow>
          fst (store_all P f calls) =
            map (\<lambda>k. Inr (''local_'' @ str_nat k)) [1 ..< Suc (length calls)]
          \<and> map (\<lambda>r. nat_of_str (drop 6 (projr r))) (fst (store_all P f calls)) =
              [1 ..< Suc (length calls)])"
proof (intro conjI impI)
  show "returned (store P w f c md) = Inr (''local_'' @ str_nat (length (load_memories f) + 1))"
    by (simp add: store_unfold [OF assms])
next
  assume "to_json md = Inr j"
  then show "load_memories (file_after (store P Written f c md)) =
           load_memories f @
             [\<lparr>memory_id = ''local_'' @ str_nat (length (load_memories f) + 1), content = c,
               metadata = of_json j, timestamp = ''unknown''\<rparr>]"
    by (rule load_after_store [OF assms])
next
  assume a: "load_memories f = []
        \<and> list_all (\<lambda>call. fst call = Written \<and> \<not> isl (to_json (snd (snd call)))) calls"
  then show ids: "fst (store_all P f calls) =
            map (\<lambda>k. Inr (''local_'' @ str_nat k)) [1 ..< Suc (length calls)]"
    using store_all_ids [OF assms, of calls f] by simp
  show "map (\<lambda>r. nat_of_str (drop 6 (projr r))) (fst (store_all P f calls)) =
              [1 ..< Suc (length calls)]"
    unfolding ids by (simp add: comp_def nat_of_str_str_nat map_idI del: upt_Suc)
qed

text \<open>
  The claim as it was stated fails, since a write that fails is swallowed and the
  next call counts the same records again: with a write failing in the middle the
  ids are \<open>local_1\<close>, \<open>local_2\<close>, \<open>local_1\<close>, and after a metadata that cannot be
  serialised they are \<open>local_1\<close>, \<open>local_1\<close>.
\<close>

theorem store_assigns_ids_counterexample:
  "fst (store_all pathlib_Path Absent
          [(Written, ''first'', PyDict []),
           (DumpFailed ''No space left on device'', ''second'', PyDict []),
           (Written, ''third'', PyDict [])])
     = [Inr ''local_1'', Inr ''local_2'', Inr ''local_1'']
   \<and> fst (store_all pathlib_Path Absent
          [(Written, ''first'', PyDict [(PyStr ''tags'', PySet [PyStr ''ui''])]),
           (Written, ''second'', PyDict [])])
     = [Inr ''local_1'', Inr ''local_1'']"
  by code_simp

theorem store_assigns_ids_witness:
  "fst (store_all pathlib_Path Absent
          [(Written, ''first'', PyDict []),
           (Written, ''second'', PyDict [(PyStr ''tags'', PyList [PyStr ''ui''])]),
           (Written, ''third'', PyDict [(PyInt 1, PyTuple [])])])
     = [Inr ''local_1'', Inr ''local_2'', Inr ''local_3'']
   \<and> map (\<lambda>r. nat_of_str (drop 6 (projr r)))
        (fst (store_all pathlib_Path Absent
          [(Written, ''first'', PyDict []),
           (Written, ''second'', PyDict [(PyStr ''tags'', PyList [PyStr ''ui''])]),
           (Written, ''third'', PyDict [(PyInt 1, PyTuple [])])]))
     = [1, 2, 3]"
proof -
  let ?calls = "[(Written, ''first'', PyDict []),
           (Written, ''second'', PyDict [(PyStr ''tags'', PyList [PyStr ''ui''])]),
           (Written, ''third'', PyDict [(PyInt 1, PyTuple [])])]"
  have h: "load_memories Absent = []
       \<and> list_all (\<lambda>call. fst call = Written \<and> \<not> isl (to_json (snd (snd call)))) ?calls"
    by simp
  have e1: "map (\<lambda>k. Inr (''local_'' @ str_nat k)) [1 ..< Suc (length ?calls)]
              = [Inr ''local_1'', Inr ''local_2'', Inr ''local_3'' :: error + string]"
    by code_simp
  have e2: "[1 ..< Suc (length ?calls)] = [1, 2, 3]"
    by code_simp
  note t = store_assigns_ids [OF pathlib_no_ctime, THEN conjunct2, THEN conjunct2, THEN mp, OF h]
  have a: "fst (store_all pathlib_Path Absent ?calls)
             = [Inr ''local_1'', Inr ''local_2'', Inr ''local_3'']"
    using t [THEN conjunct1] unfolding e1 .
  have b: "map (\<lambda>r. nat_of_str (drop 6 (projr r)))
             (fst (store_all pathlib_Path Absent ?calls)) = [1, 2, 3]"
    using t [THEN conjunct2] unfolding e2 .
  show ?thesis
    by (rule conjI [OF a b])
qed

text \<open>
  Claim C5, as amended. After a call \<open>store(content, metadata)\<close> whose write
  succeeds (the operating system lets it through and the metadata can be
  serialised), \<open>get_all_local\<close> returns a list one element longer than before: the
  previous records followed by the new record, which carries the returned id, the
  given content, and the metadata as JSON reads it back (the given metadata itself
  when that is in JSON form). A later \<open>search_local\<close> ranks the record with the
  others: for a query that its content contains and a positive limit, a search that
  returns either has the record's entry in its result or returns \<open>limit\<close> entries
  none of which has a lower score; and the search returns whenever no matching
  record has a non-empty content without a word.
\<close>

theorem store_then_visible:
  assumes "\<not> has_ctime P" and "to_json md = Inr j"
    and "f' = file_after (store P Written f c md)"
    and "new = \<lparr>memory_id = ''local_'' @ str_nat (length (load_memories f) + 1), content = c,
            metadata = of_json j, timestamp = ''unknown''\<rparr>"
  shows "length (get_all_local f') = length (get_all_local f) + 1
    \<and> get_all_local f' = get_all_local f @ [new]
    \<and> last (get_all_local f') = new \<and> content new = c \<and> metadata new = of_json j
    \<and> (json_form md \<longrightarrow> metadata new = md)
    \<and> returned (store P Written f c md) = Inr (memory_id new)
    \<and> (sublist (lower q) (lower c) \<and> 0 < limit \<and> search_local f' q limit = Inr res \<longrightarrow>
          \<lparr>match_content = c, score = spec_score q c, match_id = memory_id new\<rparr> \<in> set res
          \<or> (int (length res) = limit \<and> (\<forall>r\<in>set res. spec_score q c \<le> score r)))
    \<and> ((\<forall>m\<in>set (get_all_local f').
            spec_matches q m \<longrightarrow> content m = [] \<or> split_ws (content m) \<noteq> [])
        \<longrightarrow> (\<exists>res. search_local f' q limit = Inr res))"
proof -
  have g: "get_all_local f' = get_all_local f @ [new]"
    by (simp add: get_all_local_def assms(3,4) load_after_store [OF assms(1,2)])
  have m: "json_form md \<longrightarrow> metadata new = md"
    by (simp add: json_form_def assms(2,4))
  have r: "returned (store P Written f c md) = Inr (memory_id new)"
    by (simp add: assms(4) store_unfold [OF assms(1)])
  let ?entry = "\<lparr>match_content = c, score = spec_score q c, match_id = memory_id new\<rparr>"
  have vis: "?entry \<in> set res
          \<or> (int (length res) = limit \<and> (\<forall>r\<in>set res. spec_score q c \<le> score r))"
    if q: "sublist (lower q) (lower c)" and pos: "0 < limit"
      and s: "search_local f' q limit = Inr res"
  proof -
    let ?all = "map (spec_scored q) (filter (spec_matches q) (load_memories f'))"
    have res: "res = take (nat limit) (sort_reverse ?all)"
      using search_local_Inr [OF s] pos by (simp add: slice_to_pos)
    have e: "spec_scored q new = ?entry"
      by (simp add: spec_scored_def assms(4))
    have "new \<in> set (load_memories f')"
      using g by (simp add: get_all_local_def)
    moreover have "spec_matches q new"
      using q by (simp add: spec_matches_def assms(4))
    ultimately have "?entry \<in> set (sort_reverse ?all)"
      unfolding e [symmetric] by (simp add: set_sort_reverse)
    from take_sorted_cut [OF sorted_sort_reverse this, of "nat limit"] pos
    show ?thesis
      unfolding res by auto
  qed
  have tot: "\<exists>res. search_local f' q limit = Inr res"
    if "\<forall>m\<in>set (get_all_local f').
            spec_matches q m \<longrightarrow> content m = [] \<or> split_ws (content m) \<noteq> []"
    using that by (auto simp: search_local_eq get_all_local_def)
  from g m r vis tot show ?thesis
    by (simp add: assms(4))
qed

text \<open>
  The claim as it was stated fails. The metadata \<open>{1: 'a'}\<close> is read back as
  \<open>{'1': 'a'}\<close>, so the record \<open>get_all_local\<close> returns does not carry the given
  metadata. A search with limit 1 does not return a stored record that matches when
  another record scores higher, and a search for a single space after storing a
  single space raises.
\<close>

theorem store_then_visible_counterexample:
  "get_all_local (file_after (store pathlib_Path Written Absent ''alpha''
       (PyDict [(PyInt 1, PyStr ''a'')])))
     = [\<lparr>memory_id = ''local_1'', content = ''alpha'',
          metadata = PyDict [(PyStr ''1'', PyStr ''a'')], timestamp = ''unknown''\<rparr>]
   \<and> PyDict [(PyStr ''1'', PyStr ''a'')] \<noteq> PyDict [(PyInt 1, PyStr ''a'')]
   \<and> search_local (file_after (store pathlib_Path Written
        (Holds [sample ''local_1'' ''alpha'']) ''alpha two'' (PyDict []))) ''alpha'' 1
     = Inr [hit ''alpha'' 1 ''local_1'']
   \<and> search_local (file_after (store pathlib_Path Written Absent '' '' (PyDict []))) '' '' 5
     = Inl ZeroDivisionError"
proof (intro conjI)
  show "get_all_local (file_after (store pathlib_Path Written Absent ''alpha''
       (PyDict [(PyInt 1, PyStr ''a'')])))
     = [\<lparr>memory_id = ''local_1'', content = ''alpha'',
          metadata = PyDict [(PyStr ''1'', PyStr ''a'')], timestamp = ''unknown''\<rparr>]"
    by code_simp
  show "PyDict [(PyStr ''1'', PyStr ''a'')] \<noteq> PyDict [(PyInt 1, PyStr ''a'')]"
    by simp
  show "search_local (file_after (store pathlib_Path Written
        (Holds [sample ''local_1'' ''alpha'']) ''alpha two'' (PyDict []))) ''alpha'' 1
     = Inr [hit ''alpha'' 1 ''local_1'']"
    by code_simp
  show "search_local (file_after (store pathlib_Path Written Absent '' '' (PyDict []))) '' '' 5
     = Inl ZeroDivisionError"
    by code_simp
qed

theorem store_then_visible_witness:
  "get_all_local (file_after (store pathlib_Path Written
       (Holds [sample ''local_1'' ''alpha one'']) ''Alpha two''
       (PyDict [(PyStr ''tags'', PyTuple [PyStr ''ui''])])))
     = [\<lparr>memory_id = ''local_1'', content = ''alpha one'', metadata = PyDict [],
          timestamp = ''unknown''\<rparr>,
        \<lparr>memory_id = ''local_2'', content = ''Alpha two'',
          metadata = PyDict [(PyStr ''tags'', PyList [PyStr ''ui''])],
          timestamp = ''unknown''\<rparr>]
   \<and> (hit ''Alpha two'' (1 / 2) ''local_2''
         \<in> set [hit ''alpha one'' (1 / 2) ''local_1'', hit ''Alpha two'' (1 / 2) ''local_2'']
       \<or> (int (length [hit ''alpha one'' (1 / 2) ''local_1'',
                        hit ''Alpha two'' (1 / 2) ''local_2'']) = 5
           \<and> (\<forall>r\<in>set [hit ''alpha one'' (1 / 2) ''local_1'',
                        hit ''Alpha two'' (1 / 2) ''local_2'']. 1 / 2 \<le> score r)))
   \<and> (hit ''Alpha two'' (1 / 2) ''local_2'' \<in> set [hit ''alpha one'' (1 / 2) ''local_1'']
       \<or> (int (length [hit ''alpha one'' (1 / 2) ''local_1'']) = 1
           \<and> (\<forall>r\<in>set [hit ''alpha one'' (1 / 2) ''local_1'']. 1 / 2 \<le> score r)))"
proof -
  let ?f = "Holds [sample ''local_1'' ''alpha one'']"
  let ?md = "PyDict [(PyStr ''tags'', PyTuple [PyStr ''ui''])]"
  let ?j = "JObject [(''tags'', JArray [JStr ''ui''])]"
  let ?f' = "file_after (store pathlib_Path Written ?f ''Alpha two'' ?md)"
  let ?new = "\<lparr>memory_id = ''local_'' @ str_nat (length (load_memories ?f) + 1),
      content = ''Alpha two'', metadata = of_json ?j, timestamp = ''unknown''\<rparr>"
  have j: "to_json ?md = Inr ?j"
    by simp
  have n: "?new = \<lparr>memory_id = ''local_2'', content = ''Alpha two'',
      metadata = PyDict [(PyStr ''tags'', PyList [PyStr ''ui''])], timestamp = ''unknown''\<rparr>"
    by code_simp
  have old: "get_all_local ?f = [\<lparr>memory_id = ''local_1'', content = ''alpha one'',
      metadata = PyDict [], timestamp = ''unknown''\<rparr>]"
    by code_simp
  have q: "sublist (lower ''alpha'') (lower ''Alpha two'')"
    by code_simp
  have s: "spec_score ''alpha'' ''Alpha two'' = 1 / 2"
    by code_simp
  have s5: "search_local ?f' ''alpha'' 5 =
      Inr [hit ''alpha one'' (1 / 2) ''local_1'', hit ''Alpha two'' (1 / 2) ''local_2'']"
    by code_simp
  have s1: "search_local ?f' ''alpha'' 1 = Inr [hit ''alpha one'' (1 / 2) ''local_1'']"
    by code_simp
  have p5: "(0 :: int) < 5" and p1: "(0 :: int) < 1"
    by simp_all
  note t5 = store_then_visible [OF pathlib_no_ctime j refl refl, of ?f "''Alpha two''"
      "''alpha''" 5 "[hit ''alpha one'' (1 / 2) ''local_1'', hit ''Alpha two'' (1 / 2) ''local_2'']"]
  note t1 = store_then_visible [OF pathlib_no_ctime j refl refl, of ?f "''Alpha two''"
      "''alpha''" 1 "[hit ''alpha one'' (1 / 2) ''local_1'']"]
  from t5 have g: "get_all_local ?f' = get_all_local ?f @ [?new]"
    by blast
  from t5 q p5 s5 have v5: "\<lparr>match_content = ''Alpha two'',
         score = spec_score ''alpha'' ''Alpha two'', match_id = memory_id ?new\<rparr>
       \<in> set [hit ''alpha one'' (1 / 2) ''local_1'', hit ''Alpha two'' (1 / 2) ''local_2'']
     \<or> (int (length [hit ''alpha one'' (1 / 2) ''local_1'',
                      hit ''Alpha two'' (1 / 2) ''local_2'']) = 5
         \<and> (\<forall>r\<in>set [hit ''alpha one'' (1 / 2) ''local_1'',
                      hit ''Alpha two'' (1 / 2) ''local_2''].
               spec_score ''alpha'' ''Alpha two'' \<le> score r))"
    by blast
  from t1 q p1 s1 have v1: "\<lparr>match_content = ''Alpha two'',
         score = spec_score ''alpha'' ''Alpha two'', match_id = memory_id ?new\<rparr>
       \<in> set [hit ''alpha one'' (1 / 2) ''local_1'']
     \<or> (int (length [hit ''alpha one'' (1 / 2) ''local_1'']) = 1
         \<and> (\<forall>r\<in>set [hit ''alpha one'' (1 / 2) ''local_1''].
               spec_score ''alpha'' ''Alpha two'' \<le> score r))"
    by blast
  have g': "get_all_local ?f' = [\<lparr>memory_id = ''local_1'', content = ''alpha one'',
      metadata = PyDict [], timestamp = ''unknown''\<rparr>,
      \<lparr>memory_id = ''local_2'', content = ''Alpha two'',
       metadata = PyDict [(PyStr ''tags'', PyList [PyStr ''ui''])], timestamp = ''unknown''\<rparr>]"
    using g unfolding n old by simp
  have id: "memory_id ?new = ''local_2''"
    unfolding n by simp
  show ?thesis
    using g' v5 v1 unfolding id s by (intro conjI)
qed

text \<open>
  Claim C7, as amended. When writing the file fails, \<open>_save_memories\<close> catches the
  exception and prints \<open>Failed to save memories:\<close> with its text, once, with no
  retry; \<open>store\<close> still returns the id of the new record, so the caller is not told
  of the failure. The file is untouched when \<open>open\<close> failed and unreadable when
  \<open>json.dump\<close> failed; in neither case does it hold the new record.
\<close>

theorem store_write_failure_swallowed:
  assumes "\<not> has_ctime P"
  shows "returned (store P (OpenFailed e) f c md) =
           Inr (''local_'' @ str_nat (length (load_memories f) + 1))
    \<and> returned (store P (DumpFailed e) f c md) =
           Inr (''local_'' @ str_nat (length (load_memories f) + 1))
    \<and> printed (store P (OpenFailed e) f c md) = [''Failed to save memories: '' @ e]
    \<and> printed (store P (DumpFailed e) f c md) = [''Failed to save memories: '' @ e]
    \<and> file_after (store P (OpenFailed e) f c md) = f
    \<and> file_after (store P (DumpFailed e) f c md) = Unreadable"
  by (simp add: store_unfold [OF assms])

text \<open>The claim as it was stated fails: the write fails and \<open>store\<close> returns an id.\<close>

theorem store_write_failure_swallowed_counterexample:
  "returned (store pathlib_Path (DumpFailed ''No space left on device'')
      (Holds [sample ''local_1'' ''alpha one'']) ''beta'' (PyDict [])) = Inr ''local_2''"
  by code_simp

theorem store_write_failure_swallowed_witness:
  "returned (store pathlib_Path (OpenFailed ''Permission denied'')
      Absent ''alpha'' (PyDict [])) = Inr ''local_1''
   \<and> printed (store pathlib_Path (OpenFailed ''Permission denied'')
      Absent ''alpha'' (PyDict [])) = [''Failed to save memories: Permission denied'']
   \<and> file_after (store pathlib_Path (OpenFailed ''Permission denied'')
      Absent ''alpha'' (PyDict [])) = Absent
   \<and> file_after (store pathlib_Path (DumpFailed ''Permission denied'')
      Absent ''alpha'' (PyDict [])) = Unreadable"
proof -
  have e: "str_nat (length (load_memories Absent) + 1) = ''1''"
    by code_simp
  from store_write_failure_swallowed [OF pathlib_no_ctime, of "''Permission denied''"
      Absent "''alpha''" "PyDict []"]
  show ?thesis
    unfolding e by simp
qed

text \<open>
  Claim C8, as amended. The timestamp expression of \<open>store\<close> is guarded by
  \<open>hasattr(Path, 'ctime')\<close>. The \<open>Path\<close> of the standard library has no attribute
  \<open>ctime\<close>, so \<open>Path.ctime(Path.now())\<close> is never evaluated: the timestamp is the
  string \<open>unknown\<close>, the call does not raise and returns the id, and the record
  written (when the metadata can be serialised, so that one is written) carries the
  timestamp \<open>unknown\<close>.
\<close>

theorem store_timestamp_unknown:
  "\<not> has_ctime pathlib_Path
   \<and> (\<not> has_ctime P \<longrightarrow>
        make_timestamp P = Inr ''unknown''
        \<and> returned (store P w f c md) = Inr (''local_'' @ str_nat (length (load_memories f) + 1))
        \<and> (\<not> isl (to_json md) \<longrightarrow>
             timestamp (last (load_memories (file_after (store P Written f c md)))) = ''unknown''))"
proof (intro conjI impI)
  show "\<not> has_ctime pathlib_Path"
    by (rule pathlib_no_ctime)
next
  assume "\<not> has_ctime P"
  then show "make_timestamp P = Inr ''unknown''"
    by (simp add: make_timestamp_def)
next
  assume "\<not> has_ctime P"
  then show "returned (store P w f c md) =
      Inr (''local_'' @ str_nat (length (load_memories f) + 1))"
    by (simp add: store_unfold)
next
  assume p: "\<not> has_ctime P" and "\<not> isl (to_json md)"
  then obtain j where "to_json md = Inr j"
    by (cases "to_json md") auto
  from load_after_store [OF p this]
  show "timestamp (last (load_memories (file_after (store P Written f c md)))) = ''unknown''"
    by simp
qed

text \<open>The claim as it was stated fails: this call completes, with a timestamp.\<close>

theorem store_timestamp_unknown_counterexample:
  "store pathlib_Path Written Absent ''alpha'' (PyDict [])
     = \<lparr>returned = Inr ''local_1'',
        file_after = Holds [\<lparr>memory_id = ''local_1'', content = ''alpha'',
                             metadata = JObject [], timestamp = ''unknown''\<rparr>],
        printed = []\<rparr>"
  by code_simp

theorem store_timestamp_unknown_witness:
  "make_timestamp pathlib_Path = Inr ''unknown''
   \<and> returned (store pathlib_Path Written (Holds [sample ''local_1'' ''alpha one'']) ''beta''
        (PyDict [])) = Inr ''local_2''
   \<and> timestamp (last (load_memories (file_after (store pathlib_Path Written
        (Holds [sample ''local_1'' ''alpha one'']) ''beta'' (PyDict []))))) = ''unknown''"
proof -
  have e: "str_nat (length (load_memories (Holds [sample ''local_1'' ''alpha one''])) + 1) = ''2''"
    by code_simp
  have s: "\<not> isl (to_json (PyDict []))"
    by simp
  note t = store_timestamp_unknown [THEN conjunct2, THEN mp, OF pathlib_no_ctime,
      of Written "Holds [sample ''local_1'' ''alpha one'']" "''beta''" "PyDict []"]
  have a: "make_timestamp pathlib_Path = Inr ''unknown''"
    using t by (rule conjunct1)
  have b: "returned (store pathlib_Path Written (Holds [sample ''local_1'' ''alpha one''])
      ''beta'' (PyDict [])) = Inr ''local_2''"
    using t [THEN conjunct2, THEN conjunct1] unfolding e by simp
  have c: "timestamp (last (load_memories (file_after (store pathlib_Path Written
        (Holds [sample ''local_1'' ''alpha one'']) ''beta'' (PyDict []))))) = ''unknown''"
    using t [THEN conjunct2, THEN conjunct2, THEN mp, OF s] .
  show ?thesis
    by (intro conjI a b c)
qed

section \<open>Properties of \<open>search_local\<close>\<close>

text \<open>
  Claim C1, as amended. When no matching record has a non-empty content without a
  word, \<open>search_local\<close> returns, sorted and cut to the limit, one entry for every
  stored record whose lower-cased content contains the lower-cased query, with
  score = (occurrences of the lower-cased query in the lower-cased content, counted
  as \<open>str.count\<close> counts them) / (number of whitespace-separated words of the
  content), and 0 for the empty content. In particular the content
  \<open>alpha beta alpha\<close> scores 2/3 for the query \<open>alpha\<close>, and the content
  \<open>We decided to use React for the frontend framework\<close>, of nine words, stored
  (with a metadata that can be serialised) and then searched for \<open>frontend\<close>, scores
  1/9.
\<close>

theorem search_local_score:
  "((\<forall>m\<in>set (load_memories f).
        spec_matches q m \<longrightarrow> content m = [] \<or> split_ws (content m) \<noteq> [])
     \<longrightarrow> search_local f q limit =
          Inr (slice_to (sort_reverse
                 (map (spec_scored q) (filter (spec_matches q) (load_memories f)))) limit))
   \<and> search_local
        (Holds [\<lparr>memory_id = ''local_1'', content = ''alpha beta alpha'', metadata = j,
                 timestamp = ''unknown''\<rparr>]) ''alpha'' 5
      = Inr [\<lparr>match_content = ''alpha beta alpha'', score = 2 / 3, match_id = ''local_1''\<rparr>]
   \<and> (\<not> isl (to_json md) \<longrightarrow>
        search_local
          (file_after (store pathlib_Path Written Absent
             ''We decided to use React for the frontend framework'' md)) ''frontend'' 5
        = Inr [\<lparr>match_content = ''We decided to use React for the frontend framework'',
                score = 1 / 9, match_id = ''local_1''\<rparr>])"
proof (intro conjI impI)
  assume "\<forall>m\<in>set (load_memories f).
        spec_matches q m \<longrightarrow> content m = [] \<or> split_ws (content m) \<noteq> []"
  then show "search_local f q limit =
          Inr (slice_to (sort_reverse
                 (map (spec_scored q) (filter (spec_matches q) (load_memories f)))) limit)"
    by (auto simp: search_local_eq)
next
  show "search_local
        (Holds [\<lparr>memory_id = ''local_1'', content = ''alpha beta alpha'', metadata = j,
                 timestamp = ''unknown''\<rparr>]) ''alpha'' 5
      = Inr [\<lparr>match_content = ''alpha beta alpha'', score = 2 / 3, match_id = ''local_1''\<rparr>]"
    by code_simp
next
  assume "\<not> isl (to_json md)"
  then obtain j' where j': "to_json md = Inr j'"
    by (cases "to_json md") auto
  let ?c = "''We decided to use React for the frontend framework''"
  let ?g = "Holds [\<lparr>memory_id = ''local_1'', content = ?c, metadata = j',
                    timestamp = ''unknown''\<rparr>]"
  have one: "''local_'' @ str_nat (length (load_memories Absent) + 1) = ''local_1''"
    by code_simp
  have "load_memories (file_after (store pathlib_Path Written Absent ?c md))
          = load_memories ?g"
    using load_after_store [OF pathlib_no_ctime j', of Absent ?c]
    by (simp only: one) (simp add: parse_memory_def)
  then have "search_local (file_after (store pathlib_Path Written Absent ?c md)) ''frontend'' 5
          = search_local ?g ''frontend'' 5"
    by (rule search_local_cong)
  also have "\<dots> = Inr [\<lparr>match_content = ?c, score = 1 / 9, match_id = ''local_1''\<rparr>]"
    by code_simp
  finally show "search_local
          (file_after (store pathlib_Path Written Absent ?c md)) ''frontend'' 5
        = Inr [\<lparr>match_content = ?c, score = 1 / 9, match_id = ''local_1''\<rparr>]" .
qed

text \<open>The claim as it was stated fails: the content of the scenario has nine words,
  and its score is 1/9, not 1/8.\<close>

theorem search_local_score_counterexample:
  "search_local
     (file_after (store pathlib_Path Written Absent
        ''We decided to use React for the frontend framework'' (PyDict []))) ''frontend'' 5
   = Inr [hit ''We decided to use React for the frontend framework'' (1 / 9) ''local_1'']
   \<and> length (split_ws ''We decided to use React for the frontend framework'') = 9
   \<and> (1 / 9 :: rat) \<noteq> 1 / 8"
proof (intro conjI)
  show "search_local
     (file_after (store pathlib_Path Written Absent
        ''We decided to use React for the frontend framework'' (PyDict []))) ''frontend'' 5
   = Inr [hit ''We decided to use React for the frontend framework'' (1 / 9) ''local_1'']"
    by code_simp
  show "length (split_ws ''We decided to use React for the frontend framework'') = 9"
    by code_simp
  show "(1 / 9 :: rat) \<noteq> 1 / 8"
    by simp
qed

theorem search_local_score_witness:
  "search_local sample_file ''alpha'' 5 =
     Inr [hit ''alpha'' 1 ''local_4'', hit ''alpha one'' (1 / 2) ''local_1'',
          hit ''Alpha two'' (1 / 2) ''local_3'']
   \<and> search_local
        (file_after (store pathlib_Path Written Absent
           ''We decided to use React for the frontend framework''
           (PyDict [(PyStr ''tags'', PyList [PyStr ''ui''])]))) ''frontend'' 5
      = Inr [hit ''We decided to use React for the frontend framework'' (1 / 9) ''local_1'']"
proof -
  have a: "search_local sample_file ''alpha'' 5 =
     Inr [hit ''alpha'' 1 ''local_4'', hit ''alpha one'' (1 / 2) ''local_1'',
          hit ''Alpha two'' (1 / 2) ''local_3'']"
    using search_local_score [THEN conjunct1, THEN mp, OF sample_words, of 5]
    by (simp only: sample_spec)
  have s: "\<not> isl (to_json (PyDict [(PyStr ''tags'', PyList [PyStr ''ui''])]))"
    by simp
  note b = search_local_score [THEN conjunct2, THEN conjunct2, THEN mp, OF s]
  show ?thesis
    by (rule conjI [OF a b])
qed

text \<open>
  Claim C2. For every query and every file, every entry that \<open>search_local\<close> returns
  comes from a stored record whose lower-cased content contains the lower-cased
  query as a substring (it carries the content and the id of that record); a record
  that does not match gives no entry at all.
\<close>

theorem search_local_only_matching:
  assumes "search_local f q limit = Inr res" and "r \<in> set res"
  shows "sublist (lower q) (lower (match_content r))
         \<and> (\<exists>m\<in>set (load_memories f).
               str_in (lower q) (lower (content m))
               \<and> match_content r = content m \<and> match_id r = memory_id m)"
proof -
  let ?all = "map (spec_scored q) (filter (spec_matches q) (load_memories f))"
  have "set res \<subseteq> set ?all"
    using search_local_Inr [OF assms(1)] set_slice_to [of "sort_reverse ?all" limit]
    by (simp add: set_sort_reverse)
  with assms(2) obtain m where m: "m \<in> set (load_memories f)" "spec_matches q m"
      and r: "r = spec_scored q m"
    by auto
  from m(2) have "sublist (lower q) (lower (content m))"
    by (simp add: spec_matches_def)
  with m(1) r show ?thesis
    by (auto simp: spec_scored_def str_in_sublist)
qed

theorem search_local_only_matching_witness:
  "hit ''alpha one'' (1 / 2) ''local_1'' \<in> set [hit ''alpha'' 1 ''local_4'',
       hit ''alpha one'' (1 / 2) ''local_1'', hit ''Alpha two'' (1 / 2) ''local_3'']
   \<and> sublist (lower ''alpha'') (lower ''alpha one'')
   \<and> (\<exists>m\<in>set (load_memories sample_file).
         str_in (lower ''alpha'') (lower (content m))
         \<and> ''alpha one'' = content m \<and> ''local_1'' = memory_id m)"
proof -
  have mem: "hit ''alpha one'' (1 / 2) ''local_1'' \<in> set [hit ''alpha'' 1 ''local_4'',
       hit ''alpha one'' (1 / 2) ''local_1'', hit ''Alpha two'' (1 / 2) ''local_3'']"
    by simp
  from search_local_only_matching [OF sample_search mem] mem show ?thesis
    by simp
qed

text \<open>
  Claim C3. For every query and every positive limit, the list \<open>search_local\<close>
  returns is sorted by descending score and has at most \<open>limit\<close> elements: it is the
  first \<open>limit\<close> elements of the sorted list of matches. In particular a search with
  limit 2 returns at most two results, also when more records match.
\<close>

theorem search_local_sorted_limited:
  assumes "0 < limit" and "search_local f q limit = Inr res"
  shows "sorted_wrt (\<lambda>a b. score b \<le> score a) res
         \<and> int (length res) \<le> limit
         \<and> (\<exists>matches. collect_matches (lower q) (load_memories f) [] = Inr matches
               \<and> res = take (nat limit) (sort_reverse matches))"
proof -
  from search_local_collect [OF assms(2)] obtain matches where
    c: "collect_matches (lower q) (load_memories f) [] = Inr matches" and
    r: "res = slice_to (sort_reverse matches) limit"
    by blast
  from r assms(1) have t: "res = take (nat limit) (sort_reverse matches)"
    by (simp add: slice_to_pos)
  have "sorted_wrt (\<lambda>a b. score b \<le> score a) res"
    unfolding t using sorted_sort_reverse [of matches] by (rule sorted_wrt_take)
  moreover have "int (length res) \<le> limit"
    using assms(1) by (simp add: t)
  ultimately show ?thesis using c t by blast
qed

theorem search_local_sorted_limited_witness:
  "(0 :: int) < 2
   \<and> search_local sample_file ''alpha'' 2 =
       Inr [hit ''alpha'' 1 ''local_4'', hit ''alpha one'' (1 / 2) ''local_1'']
   \<and> sorted_wrt (\<lambda>a b. score b \<le> score a)
        [hit ''alpha'' 1 ''local_4'', hit ''alpha one'' (1 / 2) ''local_1'']
   \<and> int (length [hit ''alpha'' 1 ''local_4'', hit ''alpha one'' (1 / 2) ''local_1'']) \<le> 2
   \<and> (\<exists>matches. collect_matches (lower ''alpha'') (load_memories sample_file) [] = Inr matches
         \<and> length matches = 3
         \<and> [hit ''alpha'' 1 ''local_4'', hit ''alpha one'' (1 / 2) ''local_1'']
             = take (nat 2) (sort_reverse matches))"
proof -
  have pos: "(0 :: int) < 2" by simp
  have c: "collect_matches (lower ''alpha'') (load_memories sample_file) [] =
     Inr [hit ''alpha one'' (1 / 2) ''local_1'', hit ''Alpha two'' (1 / 2) ''local_3'',
          hit ''alpha'' 1 ''local_4'']"
    by code_simp
  note t = search_local_sorted_limited [OF pos sample_search_2]
  from t obtain matches where
    m: "collect_matches (lower ''alpha'') (load_memories sample_file) [] = Inr matches" and
    r: "[hit ''alpha'' 1 ''local_4'', hit ''alpha one'' (1 / 2) ''local_1'']
          = take (nat 2) (sort_reverse matches)"
    by blast
  have len: "length matches = 3"
    using m unfolding c by auto
  show ?thesis
    by (intro conjI exI [of _ matches])
      (rule pos sample_search_2 t [THEN conjunct1] t [THEN conjunct2, THEN conjunct1] m len r)+
qed

text \<open>
  Claim C9. The tie-break of \<open>search_local\<close> is deterministic and stable: for every
  score \<open>k\<close>, the entries of the result with score \<open>k\<close> are, in this order, the first
  of the matching records with score \<open>k\<close> in the order of the file. Two matching
  records of equal score therefore keep in the result the relative order they have
  in the stored file.
\<close>

theorem search_local_stable:
  assumes "search_local f q limit = Inr res"
  shows "prefix (filter (\<lambda>r. score r = k) res)
           (map (spec_scored q)
              (filter (\<lambda>m. spec_matches q m \<and> spec_score q (content m) = k)
                 (load_memories f)))"
proof -
  let ?all = "map (spec_scored q) (filter (spec_matches q) (load_memories f))"
  have "prefix res (sort_reverse ?all)"
    using search_local_Inr [OF assms] slice_to_prefix [of "sort_reverse ?all" limit] by simp
  then have "prefix (filter (\<lambda>r. score r = k) res)
               (filter (\<lambda>r. score r = k) (sort_reverse ?all))"
    by (rule filter_mono_prefix)
  also have "filter (\<lambda>r. score r = k) (sort_reverse ?all) = filter (\<lambda>r. score r = k) ?all"
    by (rule sort_reverse_stable)
  also have "\<dots> = map (spec_scored q)
              (filter (\<lambda>m. spec_matches q m \<and> spec_score q (content m) = k)
                 (load_memories f))"
    by (simp add: filter_map comp_def spec_scored_def conj_commute)
  finally show ?thesis .
qed

theorem search_local_stable_witness:
  "search_local sample_file ''alpha'' 5 =
     Inr [hit ''alpha'' 1 ''local_4'', hit ''alpha one'' (1 / 2) ''local_1'',
          hit ''Alpha two'' (1 / 2) ''local_3'']
   \<and> prefix [hit ''alpha one'' (1 / 2) ''local_1'', hit ''Alpha two'' (1 / 2) ''local_3'']
        (map (spec_scored ''alpha'')
           (filter (\<lambda>m. spec_matches ''alpha'' m \<and> spec_score ''alpha'' (content m) = 1 / 2)
              (load_memories sample_file)))"
proof -
  have f: "filter (\<lambda>r. score r = 1 / 2)
      [hit ''alpha'' 1 ''local_4'', hit ''alpha one'' (1 / 2) ''local_1'',
       hit ''Alpha two'' (1 / 2) ''local_3'']
    = [hit ''alpha one'' (1 / 2) ''local_1'', hit ''Alpha two'' (1 / 2) ''local_3'']"
    by simp
  note t = search_local_stable [OF sample_search, of "1 / 2"]
  show ?thesis
    using sample_search t unfolding f by (intro conjI)
qed

text \<open>
  Claim C10. The score computation of \<open>search_local\<close> is not total: when a stored
  record has a content that is not empty and consists of whitespace only, and the
  query occurs in it (a single space, or the empty query), the word count is zero,
  the division raises \<open>ZeroDivisionError\<close>, and so does the search. The guard covers
  only the empty content, whose score is 0.
\<close>

theorem search_local_blank_content_raises:
  "(m \<in> set (load_memories f) \<and> content m \<noteq> [] \<and> list_all isspace (content m)
      \<and> str_in (lower q) (lower (content m))
     \<longrightarrow> length (split_ws (lower (content m))) = 0
         \<and> score_of (lower (content m)) (lower q) = Inl ZeroDivisionError
         \<and> search_local f q limit = Inl ZeroDivisionError)
   \<and> score_of [] (lower q) = Inr 0"
proof (intro conjI impI)
  assume a: "m \<in> set (load_memories f) \<and> content m \<noteq> [] \<and> list_all isspace (content m)
      \<and> str_in (lower q) (lower (content m))"
  then have e: "split_ws (content m) = []"
    by (simp add: split_ws_Nil_iff)
  then show "length (split_ws (lower (content m))) = 0"
    by (simp add: word_count_lower)
  from a e show "score_of (lower (content m)) (lower q) = Inl ZeroDivisionError"
    by (simp add: score_of_lower)
  from a e have "\<exists>m\<in>set (load_memories f).
      spec_matches q m \<and> content m \<noteq> [] \<and> split_ws (content m) = []"
    by (auto simp: spec_matches_def str_in_sublist)
  then show "search_local f q limit = Inl ZeroDivisionError"
    by (simp add: search_local_eq)
next
  show "score_of [] (lower q) = Inr 0"
    by (simp add: score_of_def)
qed

theorem search_local_blank_content_raises_witness:
  "search_local (Holds [sample ''local_1'' '' '']) '' '' 5 = Inl ZeroDivisionError
   \<and> search_local (Holds [sample ''local_1'' '' '']) '''' 5 = Inl ZeroDivisionError"
proof -
  let ?m = "parse_memory (sample ''local_1'' '' '')"
  have h1: "?m \<in> set (load_memories (Holds [sample ''local_1'' '' ''])) \<and> content ?m \<noteq> []
      \<and> list_all isspace (content ?m) \<and> str_in (lower '' '') (lower (content ?m))"
    by (simp add: isspace_def lower_def lower_char_def parse_memory_def)
  have h2: "?m \<in> set (load_memories (Holds [sample ''local_1'' '' ''])) \<and> content ?m \<noteq> []
      \<and> list_all isspace (content ?m) \<and> str_in (lower '''') (lower (content ?m))"
    by (simp add: isspace_def lower_def lower_char_def parse_memory_def)
  from search_local_blank_content_raises [THEN conjunct1, THEN mp, OF h1, of 5]
       search_local_blank_content_raises [THEN conjunct1, THEN mp, OF h2, of 5]
  show ?thesis by simp
qed

end
